theory Spec2Isabelle
  imports Complex_Main "HOL-Library.AList" "HOL-Library.Sublist"
begin

section \<open>Concurrent page rank: the data model\<close>

text \<open>
  The programs compute with \<^verbatim>\<open>float32\<close>. The model does not fix that arithmetic: every
  operation of the source on a \<^verbatim>\<open>float32\<close> is a field of the record \<open>arith\<close>, and
  the functions below take the arithmetic as their first argument. A theorem stated for
  every arithmetic holds for the IEEE single precision operations in particular, with
  their rounding, infinities and NaN.
  \<^item> \<open>fadd\<close>, \<open>fsub\<close>, \<open>fmul\<close>, \<open>fdiv\<close>: \<^verbatim>\<open>+\<close>, \<^verbatim>\<open>-\<close>, \<^verbatim>\<open>*\<close>, \<^verbatim>\<open>/\<close> (a float
    division by zero does not panic in Go: it gives an infinity or NaN);
  \<^item> \<open>fabs\<close>: \<^verbatim>\<open>float32(math.Abs(float64(x)))\<close>;
  \<^item> \<open>flt\<close>: the comparison \<^verbatim>\<open><\<close>;
  \<^item> \<open>f32\<close>: the conversion of an exact number to \<^verbatim>\<open>float32\<close>: the constants
    \<^verbatim>\<open>float32(0)\<close>, \<^verbatim>\<open>float32(1)\<close>, \<^verbatim>\<open>0.9\<close>, \<^verbatim>\<open>0.0001\<close>,
    \<^verbatim>\<open>math.MaxFloat32\<close>, and \<^verbatim>\<open>float32(n)\<close> of an \<^verbatim>\<open>int\<close>.
\<close>

record 'r arith =
  fadd :: "'r \<Rightarrow> 'r \<Rightarrow> 'r"
  fsub :: "'r \<Rightarrow> 'r \<Rightarrow> 'r"
  fmul :: "'r \<Rightarrow> 'r \<Rightarrow> 'r"
  fdiv :: "'r \<Rightarrow> 'r \<Rightarrow> 'r"
  fabs :: "'r \<Rightarrow> 'r"
  flt :: "'r \<Rightarrow> 'r \<Rightarrow> bool"
  f32 :: "rat \<Rightarrow> 'r"

text \<open>
  The exact arithmetic of the rationals, on which the model runs on concrete inputs. It
  agrees with \<^verbatim>\<open>float32\<close> wherever no rounding happens.
\<close>

definition exactArith :: "rat arith" where
  "exactArith = \<lparr> fadd = (+), fsub = (-), fmul = (*), fdiv = (/), fabs = abs,
                  flt = (<), f32 = (\<lambda>q. q) \<rparr>"

text \<open>
  A Go map is an association list with one pair for each key; ranging over the map visits
  the pairs in the order of the list (Go leaves the order unspecified). A key is read with
  \<open>map_of\<close>, and written with \<open>AList.update\<close>, which replaces the value of a key
  that is there and appends a key that is new. Reading a missing key gives the zero value
  of the element type, as in Go.
\<close>

type_synonym ('k, 'v) gomap = "('k \<times> 'v) list"

definition lookupFloat :: "'r arith \<Rightarrow> (string, 'r) gomap \<Rightarrow> string \<Rightarrow> 'r" where
  "lookupFloat ar m k = (case map_of m k of None \<Rightarrow> f32 ar 0 | Some v \<Rightarrow> v)"

definition lookupInt :: "(string, int) gomap \<Rightarrow> string \<Rightarrow> int" where
  "lookupInt m k = (case map_of m k of None \<Rightarrow> 0 | Some v \<Rightarrow> v)"

definition lookupList :: "(string, string list) gomap \<Rightarrow> string \<Rightarrow> string list" where
  "lookupList m k = (case map_of m k of None \<Rightarrow> [] | Some v \<Rightarrow> v)"

text \<open>
  \<^verbatim>\<open>type Subgraph struct\<close>. The counts of \<open>outLinks\<close> are Go \<^verbatim>\<open>int\<close>s (64 bits);
  a count is at most the number of lines read, so it does not wrap, and it is an \<open>int\<close>
  here.
\<close>

record 'r Subgraph =
  domainName :: string
  nodes :: "string list"
  adjacencyList :: "(string, string list) gomap"
  outLinks :: "(string, int) gomap"
  pageRankOld :: "(string, 'r) gomap"
  pageRankNew :: "(string, 'r) gomap"

definition newSubgraph :: "'r Subgraph" where
  "newSubgraph = \<lparr> domainName = [], nodes = [], adjacencyList = [], outLinks = [],
                    pageRankOld = [], pageRankNew = [] \<rparr>"

section \<open>The power iteration\<close>

text \<open>\<^verbatim>\<open>math.MaxFloat32\<close>, an integer.\<close>

definition MaxFloat32 :: rat where
  "MaxFloat32 = 340282346638528859811704183484516925440"

text \<open>\<^verbatim>\<open>distance\<close>: the L1 norm of the difference, or \<^verbatim>\<open>MaxFloat32\<close> when the maps
  differ in size.\<close>

definition distance :: "'r arith \<Rightarrow> (string, 'r) gomap \<Rightarrow> (string, 'r) gomap \<Rightarrow> 'r" where
  "distance ar pOld pNew =
     (if length pOld \<noteq> length pNew then f32 ar MaxFloat32
      else foldl (\<lambda>dist (k, v). fadd ar dist (fabs ar (fsub ar v (lookupFloat ar pNew k))))
             (f32 ar 0) pOld)"

definition deepCopyMap :: "(string, 'r) gomap \<Rightarrow> (string, 'r) gomap" where
  "deepCopyMap m = foldl (\<lambda>newMap (k, v). AList.update k v newMap) [] m"

definition randClickProb :: "'r arith \<Rightarrow> 'r Subgraph \<Rightarrow> 'r \<Rightarrow> 'r" where
  "randClickProb ar subGraph d =
     fmul ar (fsub ar (f32 ar 1) d)
       (fdiv ar (f32 ar 1) (f32 ar (of_nat (length (nodes subGraph)))))"

definition hyperLinkClick :: "'r arith \<Rightarrow> 'r Subgraph \<Rightarrow> string \<Rightarrow> 'r \<Rightarrow> 'r" where
  "hyperLinkClick ar subGraph node d =
     fmul ar d
       (case map_of (adjacencyList subGraph) node of
          None \<Rightarrow> f32 ar 0
        | Some ins \<Rightarrow>
            foldl (\<lambda>prestige inNode.
                     fadd ar prestige
                       (fdiv ar (lookupFloat ar (pageRankOld subGraph) inNode)
                          (f32 ar (of_int (lookupInt (outLinks subGraph) inNode)))))
              (f32 ar 0) ins)"

definition normalizePageRankNew :: "'r arith \<Rightarrow> 'r Subgraph \<Rightarrow> 'r Subgraph" where
  "normalizePageRankNew ar subGraph =
     (let sum = foldl (\<lambda>s (k, v). fadd ar s v) (f32 ar 0) (pageRankNew subGraph)
      in subGraph \<lparr> pageRankNew :=
           foldl (\<lambda>m (k, v). AList.update k (fdiv ar v sum) m)
             (pageRankNew subGraph) (pageRankNew subGraph) \<rparr>)"

text \<open>One round of the loop of \<^verbatim>\<open>pageRank\<close>, up to the test of the distance.\<close>

definition pageRankRound :: "'r arith \<Rightarrow> 'r \<Rightarrow> 'r Subgraph \<Rightarrow> 'r Subgraph" where
  "pageRankRound ar d subGraph =
     (let g0 = subGraph \<lparr> pageRankOld := deepCopyMap (pageRankNew subGraph) \<rparr>;
          g1 = foldl (\<lambda>g url.
                   g \<lparr> pageRankNew :=
                     AList.update url
                       (fadd ar (randClickProb ar g d) (hyperLinkClick ar g url d))
                       (pageRankNew g) \<rparr>)
                 g0 (nodes g0)
      in normalizePageRankNew ar g1)"

definition converged :: "'r arith \<Rightarrow> 'r \<Rightarrow> 'r Subgraph \<Rightarrow> bool" where
  "converged ar epsilon subGraph =
     flt ar (distance ar (pageRankOld subGraph) (pageRankNew subGraph)) epsilon"

text \<open>
  \<^verbatim>\<open>pageRank\<close>: the loop \<^verbatim>\<open>for { ... if distance(...) < epsilon { break } }\<close> has no other
  exit, so a run that never gets below \<open>epsilon\<close> does not return: the value \<open>None\<close>.
\<close>

partial_function (option) pageRank ::
    "'r arith \<Rightarrow> 'r Subgraph \<Rightarrow> 'r \<Rightarrow> 'r \<Rightarrow> 'r Subgraph option" where
  "pageRank ar subGraph d epsilon =
     (let g = pageRankRound ar d subGraph
      in if converged ar epsilon g then Some g else pageRank ar g d epsilon)"

definition initPageRank :: "'r arith \<Rightarrow> 'r Subgraph \<Rightarrow> 'r Subgraph" where
  "initPageRank ar subGraph =
     (let numNodes = length (nodes subGraph)
      in foldl (\<lambda>g node.
                  g \<lparr> pageRankNew :=
                    AList.update node (fdiv ar (f32 ar 1) (f32 ar (of_nat numNodes)))
                      (pageRankNew g) \<rparr>)
           subGraph (nodes subGraph))"

text \<open>
  \<^verbatim>\<open>localizedPageRank\<close>. Its last statement, \<^verbatim>\<open>wg.Done()\<close>, tells the wait group of
  \<^verbatim>\<open>main\<close> that the goroutine is over; it touches no field of the subgraph and has no
  counterpart here.
\<close>

definition localizedPageRank :: "'r arith \<Rightarrow> 'r Subgraph \<Rightarrow> 'r Subgraph option" where
  "localizedPageRank ar subGraph =
     pageRank ar (initPageRank ar subGraph) (f32 ar (9 / 10)) (f32 ar (1 / 10000))"

section \<open>Reading the edge stream\<close>

text \<open>
  The functions of package \<^verbatim>\<open>strings\<close> that the readers call, on strings as lists of
  bytes. \<^verbatim>\<open>strings.Split(s, sep)\<close> cuts \<open>s\<close> at the occurrences of \<open>sep\<close>, found from
  the left and not overlapping; \<^verbatim>\<open>strings.Replace(s, old, new, -1)\<close> replaces them all.
  The programs call both with a separator that is not empty, and the equations below say
  nothing useful about the empty one.
\<close>

function Split :: "string \<Rightarrow> string \<Rightarrow> string list" where
  "Split [] sep = [[]]"
| "Split (c # cs) sep =
     (if sep \<noteq> [] \<and> prefix sep (c # cs)
      then [] # Split (drop (length sep) (c # cs)) sep
      else (case Split cs sep of [] \<Rightarrow> [[c]] | t # ts \<Rightarrow> (c # t) # ts))"
  by pat_completeness auto
termination
  by (relation "measure (\<lambda>(s, sep). length s)") auto

function Replace :: "string \<Rightarrow> string \<Rightarrow> string \<Rightarrow> string" where
  "Replace [] old new = []"
| "Replace (c # cs) old new =
     (if old \<noteq> [] \<and> prefix old (c # cs)
      then new @ Replace (drop (length old) (c # cs)) old new
      else c # Replace cs old new)"
  by pat_completeness auto
termination
  by (relation "measure (\<lambda>(s, old, new). length s)") auto

fun Contains :: "string \<Rightarrow> string \<Rightarrow> bool" where
  "Contains [] substr = (substr = [])"
| "Contains (c # cs) substr = (prefix substr (c # cs) \<or> Contains cs substr)"

text \<open>
  \<^verbatim>\<open>strings.TrimSpace\<close> removes the white space at both ends. The white space of the
  model is that of ASCII: tab, line feed, vertical tab, form feed, carriage return and
  space. Go also removes the Unicode spaces beyond ASCII (U+0085, U+00A0 and others),
  which the model leaves in place.
\<close>

definition isSpace :: "char \<Rightarrow> bool" where
  "isSpace c = (c = CHR 0x09 \<or> c = CHR 0x0A \<or> c = CHR 0x0B \<or> c = CHR 0x0C
                \<or> c = CHR 0x0D \<or> c = CHR 0x20)"

definition TrimSpace :: "string \<Rightarrow> string" where
  "TrimSpace s = rev (dropWhile isSpace (rev (dropWhile isSpace s)))"

text \<open>
  The head of the loop body of every reader (\<^verbatim>\<open>readDotFile\<close>,
  \<^verbatim>\<open>readDotFileByDomain\<close>, \<^verbatim>\<open>getDomains\<close>): the line is split at \<^verbatim>\<open>->\<close>, and a
  line with two pieces gives the source and the destination of an edge.
\<close>

definition parseEdge :: "string \<Rightarrow> (string \<times> string) option" where
  "parseEdge line =
     (let s = Split line ''->''
      in if length s = 2
         then Some (TrimSpace (s ! 0), TrimSpace (Replace (s ! 1) '';'' ''''))
         else None)"

definition isDomain :: "string \<Rightarrow> string \<Rightarrow> bool" where
  "isDomain src domain = Contains src (domain @ ''.calpoly.edu'')"

text \<open>
  The rest of the loop body of \<^verbatim>\<open>readDotFileByDomain\<close>, for an edge of the domain:
  \<open>visitedURL\<close> is the local map of the nodes seen so far.
\<close>

definition addEdge ::
    "string set \<times> 'r Subgraph \<Rightarrow> string \<Rightarrow> string \<Rightarrow> string set \<times> 'r Subgraph" where
  "addEdge st src dest =
     (let (visitedURL, subgraph) = st;
          (visitedURL, subgraph) =
            (if src \<notin> visitedURL
             then (insert src visitedURL,
                   subgraph \<lparr> nodes := nodes subgraph @ [src],
                              outLinks := AList.update src 0 (outLinks subgraph) \<rparr>)
             else (visitedURL, subgraph));
          (visitedURL, subgraph) =
            (if dest \<notin> visitedURL
             then (insert dest visitedURL, subgraph \<lparr> nodes := nodes subgraph @ [dest] \<rparr>)
             else (visitedURL, subgraph));
          subgraph =
            (if map_of (adjacencyList subgraph) dest = None
             then subgraph \<lparr> adjacencyList := AList.update dest [] (adjacencyList subgraph) \<rparr>
             else subgraph);
          subgraph = subgraph \<lparr> adjacencyList :=
            AList.update dest (lookupList (adjacencyList subgraph) dest @ [src])
              (adjacencyList subgraph) \<rparr>;
          subgraph = subgraph \<lparr> outLinks :=
            AList.update src (lookupInt (outLinks subgraph) src + 1) (outLinks subgraph) \<rparr>
      in (visitedURL, subgraph))"

definition readLineByDomain ::
    "string \<Rightarrow> string set \<times> 'r Subgraph \<Rightarrow> string \<Rightarrow> string set \<times> 'r Subgraph" where
  "readLineByDomain domain st line =
     (case parseEdge line of
        None \<Rightarrow> st
      | Some (src, dest) \<Rightarrow>
          if Contains src (domain @ ''.calpoly.edu'') then addEdge st src dest else st)"

text \<open>
  \<^verbatim>\<open>readDotFileByDomain\<close>, on the lines that the scanner gives for the file at
  \<^verbatim>\<open>path\<close>.
\<close>

definition readDotFileByDomain :: "string list \<Rightarrow> string \<Rightarrow> 'r Subgraph" where
  "readDotFileByDomain lines domain =
     snd (foldl (readLineByDomain domain) ({}, newSubgraph \<lparr> domainName := domain \<rparr>) lines)"

text \<open>
  \<^verbatim>\<open>getDomains\<close>: the domains that one source gives, and the list of all of them, the
  empty domain first.
\<close>

definition srcDomains :: "string \<Rightarrow> string list" where
  "srcDomains src =
     (let domains = Split src ''.''
      in map (\<lambda>idx. Replace (Replace (domains ! (idx - 1)) ''https://'' '''') ''http://'' '''')
           (filter (\<lambda>idx. domains ! idx = ''calpoly'' \<and> 0 < idx) [0..<length domains]))"

definition getDomains :: "string list \<Rightarrow> string list" where
  "getDomains lines =
     map fst
       (foldl (\<lambda>visitedDomain line.
                 case parseEdge line of
                   None \<Rightarrow> visitedDomain
                 | Some (src, dest) \<Rightarrow>
                     foldl (\<lambda>v domain. AList.update domain True v) visitedDomain
                       (srcDomains src))
          [('''', True)] lines)"

text \<open>
  \<^verbatim>\<open>readDotFile\<close> of \<^verbatim>\<open>sequentialPageRank.go\<close> fills the variables of the package,
  and leaves its loop after the edge read when \<open>count\<close> is 10. What it prints is not part
  of the model.
\<close>

record Globals =
  g_nodes :: "string list"
  g_adjacencyList :: "(string, string list) gomap"
  g_outLinks :: "(string, int) gomap"

record ReaderState =
  stopped :: bool
  count :: int
  visited :: "string set"
  globals :: Globals

definition addEdgeGlobal ::
    "string set \<times> Globals \<Rightarrow> string \<Rightarrow> string \<Rightarrow> string set \<times> Globals" where
  "addEdgeGlobal st src dest =
     (let (visitedURL, G) = st;
          (visitedURL, G) =
            (if src \<notin> visitedURL
             then (insert src visitedURL,
                   G \<lparr> g_nodes := g_nodes G @ [src],
                       g_outLinks := AList.update src 0 (g_outLinks G) \<rparr>)
             else (visitedURL, G));
          (visitedURL, G) =
            (if dest \<notin> visitedURL
             then (insert dest visitedURL, G \<lparr> g_nodes := g_nodes G @ [dest] \<rparr>)
             else (visitedURL, G));
          G = (if map_of (g_adjacencyList G) dest = None
               then G \<lparr> g_adjacencyList := AList.update dest [] (g_adjacencyList G) \<rparr>
               else G);
          G = G \<lparr> g_adjacencyList :=
                AList.update dest (lookupList (g_adjacencyList G) dest @ [src])
                  (g_adjacencyList G) \<rparr>;
          G = G \<lparr> g_outLinks :=
                AList.update src (lookupInt (g_outLinks G) src + 1) (g_outLinks G) \<rparr>
      in (visitedURL, G))"

definition readLine :: "ReaderState \<Rightarrow> string \<Rightarrow> ReaderState" where
  "readLine st line =
     (if stopped st then st
      else case parseEdge line of
             None \<Rightarrow> st
           | Some (src, dest) \<Rightarrow>
               (let (v, G) = addEdgeGlobal (visited st, globals st) src dest
                in if count st = 10
                   then st \<lparr> stopped := True, visited := v, globals := G \<rparr>
                   else st \<lparr> count := count st + 1, visited := v, globals := G \<rparr>))"

definition readDotFile :: "string list \<Rightarrow> Globals" where
  "readDotFile lines =
     globals (foldl readLine
       \<lparr> stopped = False, count = 0, visited = {},
         globals = \<lparr> g_nodes = [], g_adjacencyList = [], g_outLinks = [] \<rparr> \<rparr> lines)"

section \<open>Merging the subgraphs\<close>

text \<open>
  \<^verbatim>\<open>combineSubgraphs\<close> runs four loops over the subgraphs, one for each of \<open>nodes\<close>,
  \<open>adjacencyList\<close>, \<open>outLinks\<close> and \<open>pageRankNew\<close>, each with a fresh \<open>visitedURL\<close>.
  \<open>mergeNodes\<close> is the inner loop over the nodes of one subgraph, \<open>mergeEntries\<close> the
  inner loop over one of its maps.
\<close>

definition mergeNodes ::
    "string \<Rightarrow> string set \<times> string list \<Rightarrow> string list \<Rightarrow> string set \<times> string list" where
  "mergeNodes domain st urls =
     foldl (\<lambda>(visitedURL, globalNodes) url.
              if isDomain url domain
              then (if url \<notin> visitedURL
                    then (insert url visitedURL, globalNodes @ [url])
                    else (visitedURL, globalNodes))
              else (visitedURL, globalNodes))
       st urls"

definition mergeEntries ::
    "string \<Rightarrow> string set \<times> (string, 'v) gomap \<Rightarrow> (string, 'v) gomap
       \<Rightarrow> string set \<times> (string, 'v) gomap" where
  "mergeEntries domain st m =
     foldl (\<lambda>(visitedURL, globalMap) (url, value).
              if isDomain url domain
              then (if url \<notin> visitedURL
                    then (insert url visitedURL, AList.update url value globalMap)
                    else (visitedURL, globalMap))
              else (visitedURL, globalMap))
       st m"

definition combineSubgraphs :: "'r Subgraph list \<Rightarrow> 'r Subgraph" where
  "combineSubgraphs subgraphs =
     (newSubgraph :: 'r Subgraph)
       \<lparr> nodes :=
           snd (foldl (\<lambda>st subgraph. mergeNodes (domainName subgraph) st (nodes subgraph))
                  ({}, []) subgraphs),
         adjacencyList :=
           snd (foldl (\<lambda>st subgraph.
                         mergeEntries (domainName subgraph) st (adjacencyList subgraph))
                  ({}, []) subgraphs),
         outLinks :=
           snd (foldl (\<lambda>st subgraph. mergeEntries (domainName subgraph) st (outLinks subgraph))
                  ({}, []) subgraphs),
         pageRankNew :=
           snd (foldl (\<lambda>st subgraph.
                         mergeEntries (domainName subgraph) st (pageRankNew subgraph))
                  ({}, []) subgraphs) \<rparr>"

section \<open>Notions used in the statements\<close>

text \<open>
  The number of places of a line at which the separator starts: the occurrences of the
  separator, counted without reference to \<open>Split\<close>.
\<close>

fun occurrences :: "string \<Rightarrow> string \<Rightarrow> nat" where
  "occurrences [] sep = 0"
| "occurrences (c # cs) sep = (if prefix sep (c # cs) then 1 else 0) + occurrences cs sep"

text \<open>Appending an element to a list that does not have it yet.\<close>

definition addNew :: "string list \<Rightarrow> string \<Rightarrow> string list" where
  "addNew acc u = (if u \<in> set acc then acc else acc @ [u])"

text \<open>
  The invariant of the loop of \<^verbatim>\<open>readDotFileByDomain\<close>: the sources listed in
  \<open>adjacencyList\<close> are of the domain and have a count, every count is at least 1 and
  belongs to a node already seen.
\<close>

definition partInv :: "string \<Rightarrow> string set \<times> 'r Subgraph \<Rightarrow> bool" where
  "partInv dn st =
     ((\<forall>m ins n. map_of (adjacencyList (snd st)) m = Some ins \<longrightarrow> n \<in> set ins \<longrightarrow>
          isDomain n dn \<and> map_of (outLinks (snd st)) n \<noteq> None)
      \<and> (\<forall>n k. map_of (outLinks (snd st)) n = Some k \<longrightarrow> 1 \<le> k \<and> n \<in> fst st)
      \<and> domainName (snd st) = dn)"

text \<open>
  The edge stream of two lines on which the statements below are run: two pages of the
  domain \<open>x\<close> that link to each other.
\<close>

definition nodeA :: string where
  "nodeA = ''http://a.x.calpoly.edu''"

definition nodeB :: string where
  "nodeB = ''http://b.x.calpoly.edu''"

definition exampleLines :: "string list" where
  "exampleLines = [''http://a.x.calpoly.edu -> http://b.x.calpoly.edu;'',
                   ''http://b.x.calpoly.edu -> http://a.x.calpoly.edu;'']"

definition exampleGraph :: "string \<Rightarrow> rat Subgraph" where
  "exampleGraph dn =
     \<lparr> domainName = dn, nodes = [nodeA, nodeB],
       adjacencyList = [(nodeB, [nodeA]), (nodeA, [nodeB])],
       outLinks = [(nodeA, 1), (nodeB, 1)], pageRankOld = [], pageRankNew = [] \<rparr>"

definition exampleRanks :: "(string, rat) gomap" where
  "exampleRanks = [(nodeA, 1 / 2), (nodeB, 1 / 2)]"

section \<open>The loop of pageRank\<close>

lemmas rank_defs = pageRankRound_def normalizePageRankNew_def initPageRank_def
  randClickProb_def hyperLinkClick_def distance_def deepCopyMap_def converged_def
  lookupFloat_def lookupInt_def exactArith_def MaxFloat32_def Let_def

lemmas reader_defs = readDotFileByDomain_def readLineByDomain_def addEdge_def parseEdge_def
  TrimSpace_def isSpace_def newSubgraph_def lookupList_def lookupInt_def isDomain_def Let_def

lemmas example_defs = exampleGraph_def exampleRanks_def exampleLines_def nodeA_def nodeB_def

lemma foldl_rank_frame:
  "domainName (foldl (\<lambda>g u. g \<lparr> pageRankNew := h g u \<rparr>) g0 us) = domainName g0
   \<and> nodes (foldl (\<lambda>g u. g \<lparr> pageRankNew := h g u \<rparr>) g0 us) = nodes g0
   \<and> adjacencyList (foldl (\<lambda>g u. g \<lparr> pageRankNew := h g u \<rparr>) g0 us) = adjacencyList g0
   \<and> outLinks (foldl (\<lambda>g u. g \<lparr> pageRankNew := h g u \<rparr>) g0 us) = outLinks g0
   \<and> pageRankOld (foldl (\<lambda>g u. g \<lparr> pageRankNew := h g u \<rparr>) g0 us) = pageRankOld g0"
  by (induction us arbitrary: g0) simp_all

lemma pageRankRound_frame:
  "domainName (pageRankRound ar d g) = domainName g
   \<and> nodes (pageRankRound ar d g) = nodes g
   \<and> adjacencyList (pageRankRound ar d g) = adjacencyList g
   \<and> outLinks (pageRankRound ar d g) = outLinks g"
  by (simp add: pageRankRound_def normalizePageRankNew_def Let_def foldl_rank_frame)

lemma initPageRank_frame:
  "domainName (initPageRank ar g) = domainName g
   \<and> nodes (initPageRank ar g) = nodes g
   \<and> adjacencyList (initPageRank ar g) = adjacencyList g
   \<and> outLinks (initPageRank ar g) = outLinks g"
  by (simp add: initPageRank_def Let_def foldl_rank_frame)

lemma rounds_frame:
  "domainName ((pageRankRound ar d ^^ n) g) = domainName g
   \<and> nodes ((pageRankRound ar d ^^ n) g) = nodes g
   \<and> adjacencyList ((pageRankRound ar d ^^ n) g) = adjacencyList g
   \<and> outLinks ((pageRankRound ar d ^^ n) g) = outLinks g"
  by (induction n) (simp_all add: pageRankRound_frame)

text \<open>A run that returns has made a number of rounds, the last of them the first to
  converge.\<close>

lemma pageRank_Some_rounds:
  assumes "pageRank ar g d eps = Some g'"
  shows "\<exists>n. g' = (pageRankRound ar d ^^ Suc n) g \<and> converged ar eps g'
     \<and> (\<forall>m<n. \<not> converged ar eps ((pageRankRound ar d ^^ Suc m) g))"
  using assms
proof (induction ar g d eps g' rule: pageRank.raw_induct[rotated 1, consumes 1])
  case (1 pr ar g d eps g')
  show ?case
  proof (cases "converged ar eps (pageRankRound ar d g)")
    case True
    with 1(2) have "g' = pageRankRound ar d g" by (simp add: Let_def)
    with True show ?thesis by (intro exI[of _ 0]) simp
  next
    case False
    with 1(2) have "pr ar (pageRankRound ar d g) d eps = Some g'" by (simp add: Let_def)
    from 1(1)[OF this] obtain n where
      n: "g' = (pageRankRound ar d ^^ Suc n) (pageRankRound ar d g)"
        "converged ar eps g'"
        "\<forall>m<n. \<not> converged ar eps ((pageRankRound ar d ^^ Suc m) (pageRankRound ar d g))"
      by blast
    have "\<forall>m<Suc n. \<not> converged ar eps ((pageRankRound ar d ^^ Suc m) g)"
    proof (intro allI impI)
      fix m assume "m < Suc n"
      show "\<not> converged ar eps ((pageRankRound ar d ^^ Suc m) g)"
      proof (cases m)
        case 0
        with False show ?thesis by simp
      next
        case (Suc k)
        with \<open>m < Suc n\<close> have "k < n" by simp
        with n(3) have
          "\<not> converged ar eps ((pageRankRound ar d ^^ Suc k) (pageRankRound ar d g))"
          by blast
        then show ?thesis using Suc by (simp add: funpow_swap1)
      qed
    qed
    moreover have "g' = (pageRankRound ar d ^^ Suc (Suc n)) g"
      using n(1) by (simp add: funpow_swap1)
    ultimately show ?thesis using n(2) by blast
  qed
qed

lemma pageRank_rounds_Some:
  "converged ar eps ((pageRankRound ar d ^^ Suc n) g) \<Longrightarrow>
   (\<forall>m<n. \<not> converged ar eps ((pageRankRound ar d ^^ Suc m) g)) \<Longrightarrow>
   pageRank ar g d eps = Some ((pageRankRound ar d ^^ Suc n) g)"
proof (induction n arbitrary: g)
  case 0
  then show ?case by (subst pageRank.simps) (simp add: Let_def)
next
  case (Suc n)
  from Suc.prems(2) have nc: "\<not> converged ar eps (pageRankRound ar d g)" by force
  have a: "converged ar eps ((pageRankRound ar d ^^ Suc n) (pageRankRound ar d g))"
    using Suc.prems(1) by (simp add: funpow_swap1)
  have b: "\<forall>m<n. \<not> converged ar eps ((pageRankRound ar d ^^ Suc m) (pageRankRound ar d g))"
  proof (intro allI impI)
    fix m assume "m < n"
    then have "Suc m < Suc n" by simp
    with Suc.prems(2) have "\<not> converged ar eps ((pageRankRound ar d ^^ Suc (Suc m)) g)"
      by blast
    then show "\<not> converged ar eps ((pageRankRound ar d ^^ Suc m) (pageRankRound ar d g))"
      by (simp add: funpow_swap1)
  qed
  from Suc.IH[OF a b] have "pageRank ar (pageRankRound ar d g) d eps
      = Some ((pageRankRound ar d ^^ Suc n) (pageRankRound ar d g))" .
  then show ?case using nc by (subst pageRank.simps) (simp add: Let_def funpow_swap1)
qed

text \<open>The graph without nodes and without ranks.\<close>

lemma empty_round:
  "nodes g = [] \<Longrightarrow> pageRankNew g = [] \<Longrightarrow> pageRankRound ar d g = g \<lparr> pageRankOld := [] \<rparr>"
  by (simp add: pageRankRound_def normalizePageRankNew_def deepCopyMap_def Let_def)

lemma empty_rounds:
  "nodes g = [] \<Longrightarrow> pageRankNew g = [] \<Longrightarrow>
   (pageRankRound ar d ^^ Suc n) g = g \<lparr> pageRankOld := [] \<rparr>"
  by (induction n) (simp_all add: empty_round)

lemma empty_partition_run:
  assumes "nodes g = []" "pageRankNew g = []" "flt ar (f32 ar 0) eps"
  shows "pageRank ar (initPageRank ar g) d eps = Some (g \<lparr> pageRankOld := [] \<rparr>)"
proof -
  have i: "initPageRank ar g = g" using assms(1) by (simp add: initPageRank_def)
  have c: "converged ar eps (g \<lparr> pageRankOld := [] \<rparr>)"
    using assms by (simp add: converged_def distance_def)
  show ?thesis unfolding i
    by (subst pageRank.simps) (simp add: Let_def empty_round assms c)
qed

text \<open>The run on the example: one round, which leaves the uniform ranks as they are.\<close>

lemma f32_exact: "f32 exactArith q = q"
  by (simp add: exactArith_def)

lemma example_init:
  "initPageRank exactArith (exampleGraph dn) = exampleGraph dn \<lparr> pageRankNew := exampleRanks \<rparr>"
  by (simp add: example_defs rank_defs)

lemma example_round:
  "pageRankRound exactArith (9 / 10) (exampleGraph dn \<lparr> pageRankNew := exampleRanks \<rparr>)
     = exampleGraph dn \<lparr> pageRankOld := exampleRanks, pageRankNew := exampleRanks \<rparr>"
  by (simp add: example_defs rank_defs)

lemma example_converged:
  "converged exactArith (1 / 10000)
     (exampleGraph dn \<lparr> pageRankOld := exampleRanks, pageRankNew := exampleRanks \<rparr>)"
  by (simp add: example_defs rank_defs)

lemma example_run:
  "localizedPageRank exactArith (exampleGraph dn)
     = Some (exampleGraph dn \<lparr> pageRankOld := exampleRanks, pageRankNew := exampleRanks \<rparr>)"
proof -
  have "pageRank exactArith (exampleGraph dn \<lparr> pageRankNew := exampleRanks \<rparr>) (9 / 10) (1 / 10000)
      = Some ((pageRankRound exactArith (9 / 10) ^^ Suc 0)
                (exampleGraph dn \<lparr> pageRankNew := exampleRanks \<rparr>))"
    by (rule pageRank_rounds_Some) (simp_all add: example_round example_converged)
  then show ?thesis
    by (simp add: localizedPageRank_def example_init example_round f32_exact)
qed

lemma example_partition:
  "readDotFileByDomain exampleLines ''x'' = exampleGraph ''x''"
  "readDotFileByDomain exampleLines '''' = exampleGraph ''''"
  by (simp_all add: example_defs reader_defs)

section \<open>The merge, entry by entry\<close>

lemma mergeEntries_Cons:
  "mergeEntries dn (vis, acc) ((k, v) # m) =
     mergeEntries dn (if isDomain k dn \<and> k \<notin> vis then (insert k vis, AList.update k v acc) else (vis, acc)) m"
  by (simp add: mergeEntries_def)

lemma mergeEntries_Nil: "mergeEntries dn st [] = st"
  by (simp add: mergeEntries_def)

lemma mergeEntries_inv:
  "vis = dom (map_of acc) \<Longrightarrow>
   fst (mergeEntries dn (vis, acc) m) = dom (map_of (snd (mergeEntries dn (vis, acc) m)))
   \<and> map_of (snd (mergeEntries dn (vis, acc) m)) =
       (\<lambda>k. if isDomain k dn then map_of m k else None) ++ map_of acc"
proof (induction m arbitrary: vis acc)
  case Nil
  then show ?case by (simp add: mergeEntries_Nil map_add_def fun_eq_iff split: option.splits)
next
  case (Cons p m)
  obtain k v where p: "p = (k, v)" by (cases p)
  show ?case
  proof (cases "isDomain k dn \<and> k \<notin> vis")
    case True
    have d: "insert k vis = dom (map_of (AList.update k v acc))"
      using Cons.prems by (simp add: update_conv')
    from Cons.IH[OF d] True Cons.prems show ?thesis
      unfolding p mergeEntries_Cons
      by (auto simp: update_conv' map_add_def fun_eq_iff split: option.splits)
  next
    case False
    from Cons.IH[OF Cons.prems] False Cons.prems show ?thesis
      unfolding p mergeEntries_Cons
      by (auto simp: map_add_def fun_eq_iff dom_def split: option.splits)
  qed
qed

lemma merge_fold_entries:
  "vis = dom (map_of acc) \<Longrightarrow>
   map_of (snd (foldl (\<lambda>st g. mergeEntries (domainName g) st (fld g)) (vis, acc) gs)) k =
     (case map_of acc k of
        Some v \<Rightarrow> Some v
      | None \<Rightarrow> (case find (\<lambda>g. isDomain k (domainName g) \<and> map_of (fld g) k \<noteq> None) gs of
                   None \<Rightarrow> None | Some g \<Rightarrow> map_of (fld g) k))"
proof (induction gs arbitrary: vis acc)
  case Nil
  then show ?case by (simp split: option.splits)
next
  case (Cons g gs)
  obtain vis' acc' where st: "mergeEntries (domainName g) (vis, acc) (fld g) = (vis', acc')"
    by (cases "mergeEntries (domainName g) (vis, acc) (fld g)")
  from mergeEntries_inv[OF Cons.prems, of "domainName g" "fld g"] st
  have v: "vis' = dom (map_of acc')"
    and m: "map_of acc' = (\<lambda>k. if isDomain k (domainName g) then map_of (fld g) k else None) ++ map_of acc"
    by simp_all
  show ?case
    using Cons.IH[OF v] by (simp add: st m map_add_def split: option.splits)
qed

lemma merged_entries:
  "map_of (snd (foldl (\<lambda>st g. mergeEntries (domainName g) st (fld g)) ({}, []) gs)) k =
     (case find (\<lambda>g. isDomain k (domainName g) \<and> map_of (fld g) k \<noteq> None) gs of
        None \<Rightarrow> None | Some g \<Rightarrow> map_of (fld g) k)"
  using merge_fold_entries[of "{}" "[]" fld gs k] by simp

lemma mergeNodes_addNew:
  "mergeNodes dn (set acc, acc) us =
     (set (foldl addNew acc (filter (\<lambda>u. isDomain u dn) us)),
      foldl addNew acc (filter (\<lambda>u. isDomain u dn) us))"
proof (induction us arbitrary: acc)
  case Nil
  then show ?case by (simp add: mergeNodes_def)
next
  case (Cons u us)
  have step: "mergeNodes dn (set acc, acc) (u # us) =
      mergeNodes dn (if isDomain u dn then (set (addNew acc u), addNew acc u) else (set acc, acc)) us"
    by (auto simp: mergeNodes_def addNew_def)
  show ?case unfolding step using Cons.IH[of "addNew acc u"] Cons.IH[of acc] by simp
qed

lemma merge_fold_nodes:
  "foldl (\<lambda>st g. mergeNodes (domainName g) st (nodes g)) (set acc, acc) gs =
     (set (foldl addNew acc (concat (map (\<lambda>g. filter (\<lambda>u. isDomain u (domainName g)) (nodes g)) gs))),
      foldl addNew acc (concat (map (\<lambda>g. filter (\<lambda>u. isDomain u (domainName g)) (nodes g)) gs)))"
  by (induction gs arbitrary: acc) (simp_all add: mergeNodes_addNew)

lemma addNew_remdups: "foldl addNew [] xs = rev (remdups (rev xs))"
proof (induction xs rule: rev_induct)
  case Nil
  then show ?case by simp
next
  case (snoc x xs)
  then show ?case by (simp add: addNew_def)
qed

lemma combine_adjacencyList:
  "map_of (adjacencyList (combineSubgraphs gs)) u =
     (case find (\<lambda>g. isDomain u (domainName g) \<and> map_of (adjacencyList g) u \<noteq> None) gs of
        None \<Rightarrow> None | Some g \<Rightarrow> map_of (adjacencyList g) u)"
  by (simp add: combineSubgraphs_def merged_entries)

lemma combine_outLinks:
  "map_of (outLinks (combineSubgraphs gs)) u =
     (case find (\<lambda>g. isDomain u (domainName g) \<and> map_of (outLinks g) u \<noteq> None) gs of
        None \<Rightarrow> None | Some g \<Rightarrow> map_of (outLinks g) u)"
  by (simp add: combineSubgraphs_def merged_entries)

lemma combine_pageRankNew:
  "map_of (pageRankNew (combineSubgraphs gs)) u =
     (case find (\<lambda>g. isDomain u (domainName g) \<and> map_of (pageRankNew g) u \<noteq> None) gs of
        None \<Rightarrow> None | Some g \<Rightarrow> map_of (pageRankNew g) u)"
  by (simp add: combineSubgraphs_def merged_entries)

lemma combine_nodes:
  "nodes (combineSubgraphs gs) =
     rev (remdups (rev (concat (map (\<lambda>g. filter (\<lambda>u. isDomain u (domainName g)) (nodes g)) gs))))"
  using merge_fold_nodes[of "[]" gs] by (simp add: combineSubgraphs_def addNew_remdups)

section \<open>The invariant of the partitions\<close>

lemma addEdge_adjacency:
  "map_of (adjacencyList (snd (addEdge (vis, g) src dest))) =
     (map_of (adjacencyList g))(dest \<mapsto> lookupList (adjacencyList g) dest @ [src])"
  by (auto simp: addEdge_def Let_def update_conv' lookupList_def fun_eq_iff split: option.splits)

lemma addEdge_outLinks:
  "map_of (outLinks (snd (addEdge (vis, g) src dest))) =
     (map_of (outLinks g))(src \<mapsto> (if src \<in> vis then lookupInt (outLinks g) src else 0) + 1)"
  by (auto simp: addEdge_def Let_def update_conv' lookupInt_def fun_eq_iff split: option.splits)

lemma addEdge_visited:
  "fst (addEdge (vis, g) src dest) = insert dest (insert src vis)"
  by (auto simp: addEdge_def Let_def)

lemma addEdge_domainName:
  "domainName (snd (addEdge (vis, g) src dest)) = domainName g"
  by (auto simp: addEdge_def Let_def)

lemma addEdge_inv:
  assumes "partInv dn (vis, g)" "isDomain src dn"
  shows "partInv dn (addEdge (vis, g) src dest)"
proof -
  from assms(1) have a: "\<And>m ins n. map_of (adjacencyList g) m = Some ins \<Longrightarrow> n \<in> set ins \<Longrightarrow>
          isDomain n dn \<and> map_of (outLinks g) n \<noteq> None"
    and o: "\<And>n k. map_of (outLinks g) n = Some k \<Longrightarrow> 1 \<le> k \<and> n \<in> vis"
    and d: "domainName g = dn"
    by (auto simp: partInv_def)
  have aL: "isDomain n dn \<and> map_of (outLinks g) n \<noteq> None"
    if "n \<in> set (lookupList (adjacencyList g) m)" for n m
  proof (cases "map_of (adjacencyList g) m")
    case None
    with that show ?thesis by (simp add: lookupList_def)
  next
    case (Some ins)
    with that have "n \<in> set ins" by (simp add: lookupList_def)
    with Some show ?thesis by (rule a)
  qed
  have o0: "0 \<le> lookupInt (outLinks g) src"
    using o[of src] by (auto simp: lookupInt_def split: option.splits)
  show ?thesis
    unfolding partInv_def addEdge_adjacency addEdge_outLinks addEdge_visited addEdge_domainName
  proof (intro conjI allI impI)
    fix m ins n
    assume h: "((map_of (adjacencyList g))(dest \<mapsto> lookupList (adjacencyList g) dest @ [src])) m = Some ins"
       and n: "n \<in> set ins"
    show "isDomain n dn"
    proof (cases "m = dest")
      case True
      with h n have "n \<in> set (lookupList (adjacencyList g) dest) \<or> n = src" by auto
      then show ?thesis using aL[of n dest] assms(2) by blast
    next
      case False
      with h n a[of m ins n] show ?thesis by simp
    qed
    show "((map_of (outLinks g))(src \<mapsto> (if src \<in> vis then lookupInt (outLinks g) src else 0) + 1)) n \<noteq> None"
    proof (cases "m = dest")
      case True
      with h n have "n \<in> set (lookupList (adjacencyList g) dest) \<or> n = src" by auto
      then show ?thesis using aL[of n dest] by auto
    next
      case False
      with h n a[of m ins n] show ?thesis by simp
    qed
  next
    fix n k
    assume "((map_of (outLinks g))(src \<mapsto> (if src \<in> vis then lookupInt (outLinks g) src else 0) + 1)) n = Some k"
    then show "1 \<le> k" using o[of n k] o0 by (auto split: if_splits)
  next
    fix n k
    assume "((map_of (outLinks g))(src \<mapsto> (if src \<in> vis then lookupInt (outLinks g) src else 0) + 1)) n = Some k"
    then show "n \<in> insert dest (insert src vis)" using o[of n k] by (auto split: if_splits)
  next
    show "domainName g = dn" by (rule d)
  qed
qed

lemma readLineByDomain_inv:
  "partInv dn st \<Longrightarrow> partInv dn (readLineByDomain dn st line)"
  by (cases st) (auto simp: readLineByDomain_def isDomain_def addEdge_inv split: option.splits)

lemma fold_readLineByDomain_inv:
  "partInv dn st \<Longrightarrow> partInv dn (foldl (readLineByDomain dn) st lines)"
  by (induction lines arbitrary: st) (simp_all add: readLineByDomain_inv)

lemma readDotFileByDomain_inv:
  "partInv dn (foldl (readLineByDomain dn) ({}, newSubgraph \<lparr> domainName := dn \<rparr>) lines)"
  by (rule fold_readLineByDomain_inv) (simp add: partInv_def newSubgraph_def)

lemma partition_facts:
  fixes g :: "'r Subgraph"
  assumes "g = readDotFileByDomain lines dn"
  shows "domainName g = dn"
    and "map_of (adjacencyList g) m = Some ins \<Longrightarrow> n \<in> set ins \<Longrightarrow>
           isDomain n dn \<and> map_of (outLinks g) n \<noteq> None"
    and "map_of (outLinks g) n = Some k \<Longrightarrow> 1 \<le> k"
  using readDotFileByDomain_inv[of dn lines, where 'a='r] assms
  unfolding partInv_def readDotFileByDomain_def by blast+

section \<open>The shape of a line\<close>

lemma Split_not_Nil: "Split s sep \<noteq> []"
  by (induction s sep rule: Split.induct) (auto split: list.splits)

lemma arrow_prefix:
  "prefix ''->'' (c # cs) \<longleftrightarrow> c = CHR ''-'' \<and> (\<exists>r. cs = CHR ''>'' # r)"
  by (cases cs) auto

lemma Split_arrow_Cons:
  "Split (c # cs) ''->'' =
     (if c = CHR ''-'' \<and> (\<exists>r. cs = CHR ''>'' # r) then [] # Split (tl cs) ''->''
      else (case Split cs ''->'' of [] \<Rightarrow> [[c]] | t # ts \<Rightarrow> (c # t) # ts))"
  by (cases cs) auto

lemma occurrences_arrow_Cons:
  "occurrences (c # cs) ''->'' =
     (if c = CHR ''-'' \<and> (\<exists>r. cs = CHR ''>'' # r) then Suc (occurrences (tl cs) ''->'')
      else occurrences cs ''->'')"
  by (cases cs) auto

lemma length_Split_arrow: "length (Split s ''->'') = Suc (occurrences s ''->'')"
proof (induction s rule: length_induct)
  case (1 s)
  show ?case
  proof (cases s)
    case Nil
    then show ?thesis by simp
  next
    case (Cons c cs)
    show ?thesis
    proof (cases "c = CHR ''-'' \<and> (\<exists>r. cs = CHR ''>'' # r)")
      case True
      then have "length (tl cs) < length s" using Cons by auto
      with 1 have "length (Split (tl cs) ''->'') = Suc (occurrences (tl cs) ''->'')" by blast
      with True show ?thesis unfolding Cons Split_arrow_Cons occurrences_arrow_Cons by simp
    next
      case False
      have "length cs < length s" using Cons by simp
      with 1 have "length (Split cs ''->'') = Suc (occurrences cs ''->'')" by blast
      with False show ?thesis unfolding Cons Split_arrow_Cons occurrences_arrow_Cons
        by (auto split: list.splits)
    qed
  qed
qed

lemma Split_arrow_none: "occurrences s ''->'' = 0 \<Longrightarrow> Split s ''->'' = [s]"
proof (induction s)
  case Nil
  then show ?case by simp
next
  case (Cons c cs)
  from Cons.prems have nc: "\<not> (c = CHR ''-'' \<and> (\<exists>r. cs = CHR ''>'' # r))"
    and "occurrences cs ''->'' = 0"
    unfolding occurrences_arrow_Cons by (auto split: if_splits)
  with Cons.IH show ?case unfolding Split_arrow_Cons by simp
qed

lemma occurrences_arrow_mid: "1 \<le> occurrences (a @ ''->'' @ b) ''->''"
  by (induction a) (simp_all add: Suc_le_eq)

lemma Split_arrow_two:
  "Split s ''->'' = [a, b] \<Longrightarrow> s = a @ ''->'' @ b"
proof (induction s arbitrary: a)
  case Nil
  then show ?case by simp
next
  case (Cons c cs)
  show ?case
  proof (cases "c = CHR ''-'' \<and> (\<exists>r. cs = CHR ''>'' # r)")
    case True
    then obtain r where r: "c = CHR ''-''" "cs = CHR ''>'' # r" by blast
    with Cons.prems have "a = []" "Split r ''->'' = [b]" unfolding Split_arrow_Cons by auto
    moreover from this(2) have "occurrences r ''->'' = 0"
      using length_Split_arrow[of r] by simp
    then have "Split r ''->'' = [r]" by (rule Split_arrow_none)
    ultimately show ?thesis using r by simp
  next
    case False
    with Cons.prems obtain t where "Split cs ''->'' = [t, b]" "a = c # t"
      unfolding Split_arrow_Cons by (auto split: list.splits)
    with Cons.IH[of t] show ?thesis by simp
  qed
qed

lemma Split_arrow_unique:
  "occurrences (a @ ''->'' @ b) ''->'' = 1 \<Longrightarrow> Split (a @ ''->'' @ b) ''->'' = [a, b]"
proof (induction a)
  case Nil
  then have "occurrences b ''->'' = 0" by (simp split: if_splits)
  then have "Split b ''->'' = [b]" by (rule Split_arrow_none)
  then show ?case by simp
next
  case (Cons c a)
  have ge: "1 \<le> occurrences (a @ ''->'' @ b) ''->''" by (rule occurrences_arrow_mid)
  from Cons.prems have prem: "occurrences (c # (a @ ''->'' @ b)) ''->'' = 1"
    by (simp only: append_Cons)
  have nc: "\<not> (c = CHR ''-'' \<and> (\<exists>r. a @ ''->'' @ b = CHR ''>'' # r))"
  proof
    assume c: "c = CHR ''-'' \<and> (\<exists>r. a @ ''->'' @ b = CHR ''>'' # r)"
    have "occurrences (c # (a @ ''->'' @ b)) ''->'' = Suc (occurrences (tl (a @ ''->'' @ b)) ''->'')"
      by (subst occurrences_arrow_Cons, rule if_P, rule c)
    with prem have z: "occurrences (tl (a @ ''->'' @ b)) ''->'' = 0" by simp
    from c obtain r where r: "a @ ''->'' @ b = CHR ''>'' # r" by blast
    have "occurrences (CHR ''>'' # r) ''->'' = occurrences r ''->''"
      by (simp only: occurrences_arrow_Cons) simp
    with z r ge show False by simp
  qed
  have "occurrences (c # (a @ ''->'' @ b)) ''->'' = occurrences (a @ ''->'' @ b) ''->''"
    by (subst occurrences_arrow_Cons, rule if_not_P, rule nc)
  with prem have "occurrences (a @ ''->'' @ b) ''->'' = 1" by linarith
  then have ih: "Split (a @ ''->'' @ b) ''->'' = [a, b]" by (rule Cons.IH)
  have "Split (c # (a @ ''->'' @ b)) ''->'' =
      (case Split (a @ ''->'' @ b) ''->'' of [] \<Rightarrow> [[c]] | t # ts \<Rightarrow> (c # t) # ts)"
    by (subst Split_arrow_Cons, rule if_not_P, rule nc)
  also have "\<dots> = [c # a, b]" by (simp only: ih list.case)
  finally show ?case by (simp only: append_Cons)
qed

lemma Replace_semicolon: "Replace s '';'' '''' = filter (\<lambda>c. c \<noteq> CHR '';'') s"
  by (induction s) auto

lemma parseEdge_Some_iff:
  "parseEdge line = Some (src, dest) \<longleftrightarrow>
     (\<exists>a b. line = a @ ''->'' @ b \<and> occurrences line ''->'' = 1
        \<and> src = TrimSpace a \<and> dest = TrimSpace (filter (\<lambda>c. c \<noteq> CHR '';'') b))"
proof
  assume p: "parseEdge line = Some (src, dest)"
  then have l: "length (Split line ''->'') = 2"
    by (simp add: parseEdge_def Let_def split: if_splits)
  then obtain a b where ab: "Split line ''->'' = [a, b]"
    by (cases "Split line ''->''"; cases "tl (Split line ''->'')") auto
  from l have "occurrences line ''->'' = 1" using length_Split_arrow[of line] by simp
  moreover from ab have "line = a @ ''->'' @ b" by (rule Split_arrow_two)
  moreover from p ab have "src = TrimSpace a" "dest = TrimSpace (filter (\<lambda>c. c \<noteq> CHR '';'') b)"
    by (simp_all add: parseEdge_def Let_def Replace_semicolon)
  ultimately show "\<exists>a b. line = a @ ''->'' @ b \<and> occurrences line ''->'' = 1
        \<and> src = TrimSpace a \<and> dest = TrimSpace (filter (\<lambda>c. c \<noteq> CHR '';'') b)" by blast
next
  assume "\<exists>a b. line = a @ ''->'' @ b \<and> occurrences line ''->'' = 1
        \<and> src = TrimSpace a \<and> dest = TrimSpace (filter (\<lambda>c. c \<noteq> CHR '';'') b)"
  then obtain a b where ab: "line = a @ ''->'' @ b" "occurrences line ''->'' = 1"
    "src = TrimSpace a" "dest = TrimSpace (filter (\<lambda>c. c \<noteq> CHR '';'') b)" by blast
  from ab(1,2) have "Split line ''->'' = [a, b]" using Split_arrow_unique[of a b] by simp
  with ab(3,4) show "parseEdge line = Some (src, dest)"
    by (simp add: parseEdge_def Let_def Replace_semicolon)
qed

lemma parseEdge_None_iff: "parseEdge line = None \<longleftrightarrow> occurrences line ''->'' \<noteq> 1"
  using length_Split_arrow[of line] by (auto simp: parseEdge_def Let_def)

lemma parseEdge_skip: "occurrences line ''->'' \<noteq> 1 \<Longrightarrow> parseEdge line = None"
  by (simp add: parseEdge_None_iff)

lemma foldl_filter_skip:
  "(\<And>st l. \<not> P l \<Longrightarrow> f st l = st) \<Longrightarrow> foldl f st (filter P ls) = foldl f st ls"
  by (induction ls arbitrary: st) simp_all

lemma readDotFileByDomain_filter:
  "readDotFileByDomain (filter (\<lambda>l. occurrences l ''->'' = 1) lines) dn
     = (readDotFileByDomain lines dn :: 'r Subgraph)"
  unfolding readDotFileByDomain_def
  by (subst foldl_filter_skip) (simp_all add: readLineByDomain_def parseEdge_skip)

lemma readDotFile_filter:
  "readDotFile (filter (\<lambda>l. occurrences l ''->'' = 1) lines) = readDotFile lines"
  unfolding readDotFile_def
  by (subst foldl_filter_skip) (simp_all add: readLine_def parseEdge_skip)

section \<open>The claims\<close>

lemma addEdge_ranks:
  "pageRankNew (snd (addEdge (vis, g) src dest)) = pageRankNew g
   \<and> pageRankOld (snd (addEdge (vis, g) src dest)) = pageRankOld g"
  by (auto simp: addEdge_def Let_def)

lemma readLineByDomain_ranks:
  "pageRankNew (snd (readLineByDomain dn st line)) = pageRankNew (snd st)
   \<and> pageRankOld (snd (readLineByDomain dn st line)) = pageRankOld (snd st)"
  by (cases st) (auto simp: readLineByDomain_def addEdge_ranks split: option.splits)

lemma fold_readLineByDomain_ranks:
  "pageRankNew (snd (foldl (readLineByDomain dn) st lines)) = pageRankNew (snd st)
   \<and> pageRankOld (snd (foldl (readLineByDomain dn) st lines)) = pageRankOld (snd st)"
  by (induction lines arbitrary: st) (simp_all add: readLineByDomain_ranks)

lemma partition_ranks:
  "pageRankNew (readDotFileByDomain lines dn) = []
   \<and> pageRankOld (readDotFileByDomain lines dn) = []"
  by (simp add: readDotFileByDomain_def fold_readLineByDomain_ranks newSubgraph_def)

text \<open>
  C2. The claim: an edge is in the partition of a domain key if and only if the key taken
  from its source is that key. What the code does on the line
  \<^verbatim>\<open>http://a.x.calpoly.edu -> http://b.x.calpoly.edu;\<close>: \<^verbatim>\<open>getDomains\<close> takes the key
  \<open>x\<close> from the source, and \<^verbatim>\<open>readDotFileByDomain\<close> puts the edge into the partition of
  the empty key as well, because the source contains \<^verbatim>\<open>.calpoly.edu\<close>. In the same way an
  edge whose source has the key \<open>ceng\<close> is in the partition of the key \<open>eng\<close>.
\<close>

theorem C2_partition_takes_edge_of_other_key:
  "srcDomains ''http://a.x.calpoly.edu'' = [''x'']
   \<and> nodes (readDotFileByDomain [''http://a.x.calpoly.edu -> http://b.x.calpoly.edu;''] ''''
            :: rat Subgraph)
       = [''http://a.x.calpoly.edu'', ''http://b.x.calpoly.edu'']
   \<and> srcDomains ''http://ceng.calpoly.edu/'' = [''ceng'']
   \<and> nodes (readDotFileByDomain [''http://ceng.calpoly.edu/ -> http://lib.calpoly.edu/;''] ''eng''
            :: rat Subgraph)
       = [''http://ceng.calpoly.edu/'', ''http://lib.calpoly.edu/'']"
  by (simp add: srcDomains_def reader_defs)

text \<open>
  C3. In every partition that \<^verbatim>\<open>readDotFileByDomain\<close> builds, and in the graph that
  \<^verbatim>\<open>combineSubgraphs\<close> merges from such partitions (whatever rank maps \<open>po\<close>, \<open>pn\<close> the
  power iteration has left in them), every node \<open>n\<close> listed in the incoming list of a
  node \<open>m\<close> has an entry in \<open>outLinks\<close>, and the count that \<^verbatim>\<open>hyperLinkClick\<close> divides
  by is at least 1.
\<close>

theorem C3_incoming_sources_have_outLinks:
  fixes po pn :: "string \<Rightarrow> (string, 'r) gomap"
  shows
  "(map_of (adjacencyList (readDotFileByDomain lines dn :: 'r Subgraph)) m = Some ins \<and> n \<in> set ins
      \<longrightarrow> map_of (outLinks (readDotFileByDomain lines dn :: 'r Subgraph)) n \<noteq> None
          \<and> 1 \<le> lookupInt (outLinks (readDotFileByDomain lines dn :: 'r Subgraph)) n)
   \<and> (map_of (adjacencyList (combineSubgraphs
          (map (\<lambda>d. readDotFileByDomain lines d \<lparr> pageRankOld := po d, pageRankNew := pn d \<rparr>)
             doms))) m = Some ins \<and> n \<in> set ins
      \<longrightarrow> map_of (outLinks (combineSubgraphs
          (map (\<lambda>d. readDotFileByDomain lines d \<lparr> pageRankOld := po d, pageRankNew := pn d \<rparr>)
             doms))) n \<noteq> None
          \<and> 1 \<le> lookupInt (outLinks (combineSubgraphs
          (map (\<lambda>d. readDotFileByDomain lines d \<lparr> pageRankOld := po d, pageRankNew := pn d \<rparr>)
             doms))) n)"
proof (intro conjI impI)
  assume h: "map_of (adjacencyList (readDotFileByDomain lines dn :: 'r Subgraph)) m = Some ins
     \<and> n \<in> set ins"
  then have e: "map_of (outLinks (readDotFileByDomain lines dn :: 'r Subgraph)) n \<noteq> None"
    using partition_facts(2)[OF refl, of lines dn m ins n, where 'r='r] by blast
  then show "map_of (outLinks (readDotFileByDomain lines dn :: 'r Subgraph)) n \<noteq> None" .
  from e obtain k where k: "map_of (outLinks (readDotFileByDomain lines dn :: 'r Subgraph)) n = Some k"
    by blast
  then have "1 \<le> k" using partition_facts(3)[OF refl, where 'r='r] by blast
  with k show "1 \<le> lookupInt (outLinks (readDotFileByDomain lines dn :: 'r Subgraph)) n"
    by (simp add: lookupInt_def)
next
  define part where
    "part = (\<lambda>d. (readDotFileByDomain lines d :: 'r Subgraph)
                  \<lparr> pageRankOld := po d, pageRankNew := pn d \<rparr>)"
  define gs where "gs = map part doms"
  have a: "isDomain n' (domainName g) \<and> map_of (outLinks g) n' \<noteq> None"
    if "g \<in> set gs" "map_of (adjacencyList g) m' = Some ins'" "n' \<in> set ins'" for g m' ins' n'
  proof -
    from that(1) obtain d where d: "g = part d" by (auto simp: gs_def)
    have "domainName g = d" using partition_facts(1)[OF refl, of lines d, where 'r='r]
      by (simp add: d part_def)
    moreover have "isDomain n' d \<and> map_of (outLinks (readDotFileByDomain lines d :: 'r Subgraph)) n' \<noteq> None"
      using partition_facts(2)[OF refl, of lines d m' ins' n', where 'r='r] that(2,3)
      by (simp add: d part_def)
    ultimately show ?thesis by (simp add: d part_def)
  qed
  have o: "1 \<le> k" if "g \<in> set gs" "map_of (outLinks g) n' = Some k" for g n' k
  proof -
    from that(1) obtain d where d: "g = part d" by (auto simp: gs_def)
    with that(2) have "map_of (outLinks (readDotFileByDomain lines d :: 'r Subgraph)) n' = Some k"
      by (simp add: part_def)
    then show ?thesis using partition_facts(3)[OF refl, where 'r='r] by blast
  qed
  assume "map_of (adjacencyList (combineSubgraphs
          (map (\<lambda>d. readDotFileByDomain lines d \<lparr> pageRankOld := po d, pageRankNew := pn d \<rparr>)
             doms))) m = Some ins \<and> n \<in> set ins"
  then have h: "map_of (adjacencyList (combineSubgraphs gs)) m = Some ins" and n: "n \<in> set ins"
    by (simp_all add: gs_def part_def)
  from h obtain g where g: "g \<in> set gs" "map_of (adjacencyList g) m = Some ins"
    unfolding combine_adjacencyList
    by (auto split: option.splits simp: find_Some_iff in_set_conv_nth)
  from a[OF g n] g(1)
  have "find (\<lambda>g. isDomain n (domainName g) \<and> map_of (outLinks g) n \<noteq> None) gs \<noteq> None"
    by (auto simp: find_None_iff)
  then obtain g' where g': "find (\<lambda>g. isDomain n (domainName g) \<and> map_of (outLinks g) n \<noteq> None) gs = Some g'"
    by blast
  then have in': "g' \<in> set gs" and ne: "map_of (outLinks g') n \<noteq> None"
    by (auto simp: find_Some_iff in_set_conv_nth)
  from ne obtain k where k: "map_of (outLinks g') n = Some k" by blast
  have c: "map_of (outLinks (combineSubgraphs gs)) n = Some k"
    unfolding combine_outLinks by (simp only: g' option.case k)
  have "1 \<le> k" using o[OF in' k] .
  with c have "map_of (outLinks (combineSubgraphs gs)) n \<noteq> None
      \<and> 1 \<le> lookupInt (outLinks (combineSubgraphs gs)) n"
    by (simp add: lookupInt_def)
  then show "map_of (outLinks (combineSubgraphs
          (map (\<lambda>d. readDotFileByDomain lines d \<lparr> pageRankOld := po d, pageRankNew := pn d \<rparr>)
             doms))) n \<noteq> None"
    and "1 \<le> lookupInt (outLinks (combineSubgraphs
          (map (\<lambda>d. readDotFileByDomain lines d \<lparr> pageRankOld := po d, pageRankNew := pn d \<rparr>)
             doms))) n"
    by (simp_all add: gs_def part_def)
qed

theorem C3_incoming_sources_have_outLinks_witness:
  "map_of (outLinks (readDotFileByDomain exampleLines ''x'' :: rat Subgraph)) nodeA \<noteq> None
   \<and> 1 \<le> lookupInt (outLinks (readDotFileByDomain exampleLines ''x'' :: rat Subgraph)) nodeA
   \<and> map_of (outLinks (combineSubgraphs
          (map (\<lambda>d. readDotFileByDomain exampleLines d
                      \<lparr> pageRankOld := exampleRanks, pageRankNew := exampleRanks \<rparr>)
             ['''', ''x'']))) nodeA \<noteq> None
   \<and> 1 \<le> lookupInt (outLinks (combineSubgraphs
          (map (\<lambda>d. readDotFileByDomain exampleLines d
                      \<lparr> pageRankOld := exampleRanks, pageRankNew := exampleRanks \<rparr>)
             ['''', ''x'']))) nodeA"
proof -
  have h1: "map_of (adjacencyList (readDotFileByDomain exampleLines ''x'' :: rat Subgraph)) nodeB
      = Some [nodeA] \<and> nodeA \<in> set [nodeA]"
    by (simp add: example_partition exampleGraph_def)
  have h2: "map_of (adjacencyList (combineSubgraphs
          (map (\<lambda>d. readDotFileByDomain exampleLines d
                      \<lparr> pageRankOld := exampleRanks, pageRankNew := exampleRanks \<rparr>)
             ['''', ''x'']))) nodeB = Some [nodeA] \<and> nodeA \<in> set [nodeA]"
    by (simp add: combine_adjacencyList example_partition exampleGraph_def isDomain_def
        nodeA_def nodeB_def)
  show ?thesis
    using C3_incoming_sources_have_outLinks[where lines = exampleLines and dn = "''x''"
        and m = nodeB and ins = "[nodeA]" and n = nodeA and po = "\<lambda>d. exampleRanks"
        and pn = "\<lambda>d. exampleRanks" and doms = "['''', ''x'']"] h1 h2
    by blast
qed

text \<open>
  C5. A partition without nodes has no ranks either; \<^verbatim>\<open>initPageRank\<close> followed by
  \<^verbatim>\<open>pageRank\<close> returns after one round, in which no loop body runs and so nothing is
  divided, and the rank map it returns is empty. This holds for every arithmetic in which
  \<^verbatim>\<open>float32(0) < 0.0001\<close>, whatever its division does.
\<close>

theorem C5_empty_partition_returns_empty_ranks:
  fixes ar :: "'r arith"
  assumes "nodes (readDotFileByDomain lines dn :: 'r Subgraph) = []"
    and "flt ar (f32 ar 0) (f32 ar (1 / 10000))"
  shows "localizedPageRank ar (readDotFileByDomain lines dn)
           = Some (readDotFileByDomain lines dn)
         \<and> pageRankNew (readDotFileByDomain lines dn :: 'r Subgraph) = []"
proof -
  have r: "pageRankNew (readDotFileByDomain lines dn :: 'r Subgraph) = []"
    "pageRankOld (readDotFileByDomain lines dn :: 'r Subgraph) = []"
    by (simp_all add: partition_ranks)
  have "pageRank ar (initPageRank ar (readDotFileByDomain lines dn)) (f32 ar (9 / 10))
          (f32 ar (1 / 10000))
        = Some ((readDotFileByDomain lines dn) \<lparr> pageRankOld := [] \<rparr>)"
    by (rule empty_partition_run[OF assms(1) r(1) assms(2)])
  moreover have "(readDotFileByDomain lines dn :: 'r Subgraph) \<lparr> pageRankOld := [] \<rparr>
      = readDotFileByDomain lines dn"
    using r(2) by (metis Subgraph.surjective Subgraph.update_convs(5))
  ultimately show ?thesis using r(1) by (simp add: localizedPageRank_def)
qed

theorem C5_empty_partition_returns_empty_ranks_witness:
  "localizedPageRank exactArith (readDotFileByDomain [''garbage line with no arrow''] '''')
     = Some (readDotFileByDomain [''garbage line with no arrow''] '''')
   \<and> pageRankNew (readDotFileByDomain [''garbage line with no arrow''] '''' :: rat Subgraph) = []"
proof -
  have n: "nodes (readDotFileByDomain [''garbage line with no arrow''] '''' :: rat Subgraph) = []"
    by (simp add: reader_defs)
  have f: "flt exactArith (f32 exactArith 0) (f32 exactArith (1 / 10000))"
    by (simp add: exactArith_def)
  show ?thesis by (rule C5_empty_partition_returns_empty_ranks[OF n f])
qed

text \<open>
  C6. The claim: the loop of \<^verbatim>\<open>pageRank\<close> stops at a cap on the number of rounds and
  reports that it has not converged. The code has no cap: on the graph without nodes and
  with \<open>epsilon = 0\<close> the distance of every round is 0, which is not below 0, and the run
  never returns.
\<close>

theorem C6_no_iteration_cap_counterexample:
  "pageRank exactArith newSubgraph (9 / 10) 0 = None"
proof (cases "pageRank exactArith newSubgraph (9 / 10) 0")
  case None
  then show ?thesis .
next
  case (Some g')
  from pageRank_Some_rounds[OF this] obtain n where
    "g' = (pageRankRound exactArith (9 / 10) ^^ Suc n) newSubgraph" "converged exactArith 0 g'"
    by blast
  moreover have "(pageRankRound exactArith (9 / 10) ^^ Suc n) newSubgraph = newSubgraph"
    using empty_rounds[where g = "newSubgraph :: rat Subgraph" and ar = exactArith
        and d = "9 / 10" and n = n]
    by (simp add: newSubgraph_def)
  ultimately have "converged exactArith 0 (newSubgraph :: rat Subgraph)" by simp
  then show ?thesis by (simp add: converged_def distance_def newSubgraph_def exactArith_def)
qed

text \<open>
  C6, as the code has it. \<^verbatim>\<open>pageRank\<close> returns exactly when some round ends with a
  distance below \<open>epsilon\<close>, and then it returns the graph after the first such round;
  when no round does, it does not return. There is no cap on the rounds and no signal.
\<close>

theorem C6_pageRank_returns_iff_some_round_converges:
  "(pageRank ar g d eps = Some g' \<longleftrightarrow>
      (\<exists>n. g' = (pageRankRound ar d ^^ Suc n) g \<and> converged ar eps g'
           \<and> (\<forall>m<n. \<not> converged ar eps ((pageRankRound ar d ^^ Suc m) g))))
   \<and> (pageRank ar g d eps = None \<longleftrightarrow>
        (\<forall>n. \<not> converged ar eps ((pageRankRound ar d ^^ Suc n) g)))"
proof (intro conjI iffI)
  assume "pageRank ar g d eps = Some g'"
  then show "\<exists>n. g' = (pageRankRound ar d ^^ Suc n) g \<and> converged ar eps g'
           \<and> (\<forall>m<n. \<not> converged ar eps ((pageRankRound ar d ^^ Suc m) g))"
    by (rule pageRank_Some_rounds)
next
  assume "\<exists>n. g' = (pageRankRound ar d ^^ Suc n) g \<and> converged ar eps g'
           \<and> (\<forall>m<n. \<not> converged ar eps ((pageRankRound ar d ^^ Suc m) g))"
  then obtain n where "g' = (pageRankRound ar d ^^ Suc n) g"
    "converged ar eps ((pageRankRound ar d ^^ Suc n) g)"
    "\<forall>m<n. \<not> converged ar eps ((pageRankRound ar d ^^ Suc m) g)" by auto
  then show "pageRank ar g d eps = Some g'"
    using pageRank_rounds_Some[where ar = ar and eps = eps and d = d and n = n and g = g]
    by simp
next
  assume none: "pageRank ar g d eps = None"
  show "\<forall>n. \<not> converged ar eps ((pageRankRound ar d ^^ Suc n) g)"
  proof (rule ccontr)
    assume "\<not> (\<forall>n. \<not> converged ar eps ((pageRankRound ar d ^^ Suc n) g))"
    then have ex: "\<exists>n. converged ar eps ((pageRankRound ar d ^^ Suc n) g)" by blast
    define k where "k = (LEAST n. converged ar eps ((pageRankRound ar d ^^ Suc n) g))"
    have "converged ar eps ((pageRankRound ar d ^^ Suc k) g)"
      unfolding k_def using ex by (rule LeastI_ex)
    moreover have "\<forall>m<k. \<not> converged ar eps ((pageRankRound ar d ^^ Suc m) g)"
      unfolding k_def using not_less_Least by blast
    ultimately have "pageRank ar g d eps = Some ((pageRankRound ar d ^^ Suc k) g)"
      by (rule pageRank_rounds_Some)
    with none show False by simp
  qed
next
  assume nc: "\<forall>n. \<not> converged ar eps ((pageRankRound ar d ^^ Suc n) g)"
  show "pageRank ar g d eps = None"
  proof (cases "pageRank ar g d eps")
    case None
    then show ?thesis .
  next
    case (Some y)
    from pageRank_Some_rounds[OF this] nc show ?thesis by blast
  qed
qed

theorem C6_pageRank_returns_iff_some_round_converges_witness:
  "pageRank exactArith (exampleGraph ''x'' \<lparr> pageRankNew := exampleRanks \<rparr>) (9 / 10) (1 / 10000)
     = Some (exampleGraph ''x'' \<lparr> pageRankOld := exampleRanks, pageRankNew := exampleRanks \<rparr>)"
proof -
  have "\<exists>n. exampleGraph ''x'' \<lparr> pageRankOld := exampleRanks, pageRankNew := exampleRanks \<rparr>
        = (pageRankRound exactArith (9 / 10) ^^ Suc n)
            (exampleGraph ''x'' \<lparr> pageRankNew := exampleRanks \<rparr>)
      \<and> converged exactArith (1 / 10000)
          (exampleGraph ''x'' \<lparr> pageRankOld := exampleRanks, pageRankNew := exampleRanks \<rparr>)
      \<and> (\<forall>m<n. \<not> converged exactArith (1 / 10000)
            ((pageRankRound exactArith (9 / 10) ^^ Suc m)
               (exampleGraph ''x'' \<lparr> pageRankNew := exampleRanks \<rparr>)))"
    by (rule exI[of _ 0]) (simp add: example_round example_converged)
  then show ?thesis
    using C6_pageRank_returns_iff_some_round_converges[where ar = exactArith
        and g = "exampleGraph ''x'' \<lparr> pageRankNew := exampleRanks \<rparr>" and d = "9 / 10"
        and eps = "1 / 10000"
        and g' = "exampleGraph ''x'' \<lparr> pageRankOld := exampleRanks, pageRankNew := exampleRanks \<rparr>"]
    by blast
qed

end
